theory Spec2Isabelle
  imports Main "HOL-Library.Word" "HOL-Library.FSet" "HOL-Library.Finite_Map"
begin

section \<open>The transaction store of idempotent-operations/trxstore/trxstore.go\<close>

subsection \<open>Data\<close>

text \<open>
  \<^verbatim>\<open>uuid.UUID\<close> is an array of 16 bytes, that is 128 bits. A Go \<^verbatim>\<open>[]byte\<close> is either
  the nil slice or a slice with contents (possibly of length 0); the two differ under
  \<^verbatim>\<open>res != nil\<close>, the test the repository's own test file uses for presence, so the
  model keeps them apart. The slice is stored and returned by reference; the model
  holds its contents, which is what a caller sees as long as nobody writes into the
  backing array (the package itself never does).
\<close>

type_synonym uuid = "128 word"

type_synonym byte = "8 word"

datatype byte_slice = NilSlice | Slice "byte list"

text \<open>
  Time is an input of the model. An \<open>instant\<close> is a reading of the monotonic clock in
  nanoseconds (every \<^verbatim>\<open>time.Now()\<close> carries one), a \<open>duration\<close> is a number of
  nanoseconds as \<^verbatim>\<open>time.Duration\<close> is, and \<^verbatim>\<open>time.Since(t)\<close> is the current reading
  minus \<open>t\<close> (Go cuts the difference off at the ends of the 64-bit range, 292 years,
  which two readings of one process do not reach). Each call of \<^verbatim>\<open>time.Now()\<close> or
  \<^verbatim>\<open>time.Since\<close> in the source takes the reading it sees as an argument in the model.
\<close>

type_synonym instant = int

type_synonym duration = int

definition Since :: "instant \<Rightarrow> instant \<Rightarrow> duration" where
  "Since now t = now - t"

text \<open>
  The struct, without its lock: every access to the two maps in the source is inside
  a section guarded by \<^verbatim>\<open>cacheLock\<close>, and each guarded section is one function of the
  model (one atomic step). The maps are finite maps, as the constructor makes them
  (never nil).
\<close>

record BytesTrxStore =
  cache :: "(uuid, byte_slice) fmap"
  cacheExpire :: "(uuid, instant) fmap"
  ttl :: duration

text \<open>
  A \<^verbatim>\<open>context.Context\<close> argument is either nil or a context whose \<^verbatim>\<open>Done()\<close> channel
  the sweeper can receive from.
\<close>

datatype go_context = NilContext | Context

subsection \<open>Construction, Check and Store\<close>

text \<open>
  The constructor builds the struct with two empty maps and starts the goroutine
  \<^verbatim>\<open>go res.watchExpire(ctx)\<close>. It returns the store together with the context that
  goroutine runs with.
\<close>

definition NewBytesTRXStoreWithContext :: "go_context \<Rightarrow> duration \<Rightarrow> BytesTrxStore \<times> go_context" where
  "NewBytesTRXStoreWithContext ctx d =
     (\<lparr>cache = fmempty, cacheExpire = fmempty, ttl = d\<rparr>, ctx)"

definition NewBytesTRXStore :: "duration \<Rightarrow> BytesTrxStore \<times> go_context" where
  "NewBytesTRXStore d = NewBytesTRXStoreWithContext NilContext d"

text \<open>
  \<^verbatim>\<open>res := p.cache[trx]\<close>: indexing a Go map with a missing key gives the zero value
  of the element type, the nil slice. \<open>Check\<close> returns the result and the store as it
  leaves it.
\<close>

definition Check :: "BytesTrxStore \<Rightarrow> uuid \<Rightarrow> byte_slice \<times> BytesTrxStore" where
  "Check p trx =
     (let res = (case fmlookup (cache p) trx of None \<Rightarrow> NilSlice | Some b \<Rightarrow> b)
      in (res, p))"

text \<open>\<open>now\<close> is the reading \<^verbatim>\<open>time.Now()\<close> returns inside \<^verbatim>\<open>Store\<close>.\<close>

definition Store :: "instant \<Rightarrow> uuid \<Rightarrow> byte_slice \<Rightarrow> BytesTrxStore \<Rightarrow> BytesTrxStore" where
  "Store now trx result p =
     p\<lparr>cache := fmupd trx result (cache p),
       cacheExpire := fmupd trx now (cacheExpire p)\<rparr>"

subsection \<open>The sweep\<close>

text \<open>
  \<^verbatim>\<open>cleanupExpired\<close> has two guarded sections. The first, under the read lock, ranges
  over \<^verbatim>\<open>cacheExpire\<close> and collects into \<^verbatim>\<open>entriesForRemove\<close> every id with
  \<^verbatim>\<open>time.Since(createdAt) > p.ttl\<close>. \<^verbatim>\<open>time.Since\<close> reads the clock at each iteration:
  \<open>clk id\<close> is the reading taken when the loop is at \<open>id\<close>. The order of the
  iteration is unspecified in Go and the collected set does not depend on it.
\<close>

definition scanExpired :: "(uuid \<Rightarrow> instant) \<Rightarrow> BytesTrxStore \<Rightarrow> uuid fset" where
  "scanExpired clk p =
     ffilter (\<lambda>id. case fmlookup (cacheExpire p) id of
                      None \<Rightarrow> False
                    | Some createdAt \<Rightarrow> Since (clk id) createdAt > ttl p)
             (fmdom (cacheExpire p))"

text \<open>
  The second section, under the write lock and entered only if the set is not empty,
  deletes every collected id from both maps.
\<close>

definition deleteEntries :: "uuid fset \<Rightarrow> BytesTrxStore \<Rightarrow> BytesTrxStore" where
  "deleteEntries entriesForRemove p =
     (if entriesForRemove \<noteq> {||}
      then p\<lparr>cache := fmdrop_fset entriesForRemove (cache p),
             cacheExpire := fmdrop_fset entriesForRemove (cacheExpire p)\<rparr>
      else p)"

definition cleanupExpired :: "(uuid \<Rightarrow> instant) \<Rightarrow> BytesTrxStore \<Rightarrow> BytesTrxStore" where
  "cleanupExpired clk p = deleteEntries (scanExpired clk p) p"

subsection \<open>The sweeper goroutine\<close>

text \<open>The period of the ticker, 100 ms in nanoseconds.\<close>

definition sleepBetweenExpireCheck :: duration where
  "sleepBetweenExpireCheck = 100 * 1000000"

text \<open>
  \<^verbatim>\<open>watchExpire\<close> creates a ticker of that period and loops. What the loop does
  depends only on what it receives, so the model runs it on the sequence of its wakes, in
  the order in which the loop takes them: \<open>TimerC clk\<close> is a
  receive from \<^verbatim>\<open>timer.C\<close> (followed by a sweep that sees the readings \<open>clk\<close>),
  \<open>CtxDone\<close> is the cancellation of the application's context. The result is the
  store, the state of the ticker and whether the goroutine has returned or is still
  in its loop, waiting for the next wake.
\<close>

datatype wake = TimerC "uuid \<Rightarrow> instant" | CtxDone

datatype ticker = Ticking | Stopped

datatype goroutine = Looping | Returned

text \<open>
  \<^verbatim>\<open>for range timer.C { p.cleanupExpired() }\<close>: the loop receives from the ticker only;
  a ticker's channel is never closed, so the loop has no exit.
\<close>

fun range_loop :: "wake list \<Rightarrow> BytesTrxStore \<Rightarrow> BytesTrxStore \<times> ticker \<times> goroutine" where
  "range_loop [] p = (p, Ticking, Looping)"
| "range_loop (TimerC clk # wakes) p = range_loop wakes (cleanupExpired clk p)"
| "range_loop (CtxDone # wakes) p = range_loop wakes p"

text \<open>
  \<^verbatim>\<open>for { select { case <-timer.C: ...; case <-ctx.Done(): timer.Stop(); return } }\<close>
\<close>

fun select_loop :: "wake list \<Rightarrow> BytesTrxStore \<Rightarrow> BytesTrxStore \<times> ticker \<times> goroutine" where
  "select_loop [] p = (p, Ticking, Looping)"
| "select_loop (TimerC clk # wakes) p = select_loop wakes (cleanupExpired clk p)"
| "select_loop (CtxDone # wakes) p = (p, Stopped, Returned)"

definition watchExpire ::
    "go_context \<Rightarrow> wake list \<Rightarrow> BytesTrxStore \<Rightarrow> BytesTrxStore \<times> ticker \<times> goroutine" where
  "watchExpire ctx wakes p =
     (if ctx = NilContext then range_loop wakes p else select_loop wakes p)"

subsection \<open>Sequences of calls\<close>

text \<open>
  A caller's view of the store over time is a sequence of calls, each a complete run
  of one of the package's functions, with the clock readings it sees.
\<close>

datatype call =
  CallStore instant uuid byte_slice
| CallCheck uuid
| CallCleanup "uuid \<Rightarrow> instant"

fun step :: "call \<Rightarrow> BytesTrxStore \<Rightarrow> BytesTrxStore" where
  "step (CallStore now trx result) p = Store now trx result p"
| "step (CallCheck trx) p = snd (Check p trx)"
| "step (CallCleanup clk) p = cleanupExpired clk p"

definition run :: "call list \<Rightarrow> BytesTrxStore \<Rightarrow> BytesTrxStore" where
  "run calls p = fold step calls p"

text \<open>\<open>stores trx c\<close>: the call \<open>c\<close> passes \<open>trx\<close> to \<open>Store\<close>.\<close>

fun stores :: "uuid \<Rightarrow> call \<Rightarrow> bool" where
  "stores trx (CallStore now trx' result) = (trx' = trx)"
| "stores trx (CallCheck trx') = False"
| "stores trx (CallCleanup clk) = False"

text \<open>
  \<open>sweeps_by trx tc c\<close>: if the call \<open>c\<close> is a sweep, the reading its scan takes for
  \<open>trx\<close> is not later than \<open>tc\<close>. The calls that come before a \<open>Check\<close> made at time
  \<open>tc\<close> are like that, the clock being monotonic.
\<close>

fun sweeps_by :: "uuid \<Rightarrow> instant \<Rightarrow> call \<Rightarrow> bool" where
  "sweeps_by trx tc (CallCleanup clk) = (clk trx \<le> tc)"
| "sweeps_by trx tc (CallStore now trx' result) = True"
| "sweeps_by trx tc (CallCheck trx') = True"

text \<open>
  \<open>ticks wakes\<close>: the sweeps that the ticks among the wakes start, in their order.
\<close>

fun ticks :: "wake list \<Rightarrow> call list" where
  "ticks [] = []"
| "ticks (TimerC clk # wakes) = CallCleanup clk # ticks wakes"
| "ticks (CtxDone # wakes) = ticks wakes"

text \<open>The invariant of the struct: the two maps have the same keys.\<close>

definition same_keys :: "BytesTrxStore \<Rightarrow> bool" where
  "same_keys p = (fmdom (cache p) = fmdom (cacheExpire p))"

section \<open>Properties\<close>

subsection \<open>Basic facts\<close>

lemma run_Nil: "run [] p = p"
  by (simp add: run_def)

lemma run_Cons: "run (c # calls) p = run calls (step c p)"
  by (simp add: run_def)

lemma run_append: "run (xs @ ys) p = run ys (run xs p)"
  by (simp add: run_def)

lemma scanExpired_iff:
  "trx |\<in>| scanExpired clk p \<longleftrightarrow>
     (\<exists>createdAt. fmlookup (cacheExpire p) trx = Some createdAt \<and> clk trx - createdAt > ttl p)"
  by (auto simp: scanExpired_def Since_def fmlookup_dom_iff split: option.splits)

lemma cache_deleteEntries:
  "fmlookup (cache (deleteEntries ids p)) trx =
     (if trx |\<in>| ids then None else fmlookup (cache p) trx)"
  by (auto simp: deleteEntries_def)

lemma cacheExpire_deleteEntries:
  "fmlookup (cacheExpire (deleteEntries ids p)) trx =
     (if trx |\<in>| ids then None else fmlookup (cacheExpire p) trx)"
  by (auto simp: deleteEntries_def)

lemma ttl_deleteEntries: "ttl (deleteEntries ids p) = ttl p"
  by (simp add: deleteEntries_def)

lemma same_keys_New: "same_keys (fst (NewBytesTRXStoreWithContext ctx d))"
  by (simp add: same_keys_def NewBytesTRXStoreWithContext_def)

lemma same_keys_Store: "same_keys p \<Longrightarrow> same_keys (Store now trx result p)"
  by (simp add: same_keys_def Store_def)

lemma same_keys_deleteEntries: "same_keys p \<Longrightarrow> same_keys (deleteEntries ids p)"
  by (simp add: same_keys_def deleteEntries_def)

lemma same_keys_step: "same_keys p \<Longrightarrow> same_keys (step c p)"
  by (cases c) (simp_all add: same_keys_Store same_keys_deleteEntries cleanupExpired_def Check_def)

lemma same_keys_run: "same_keys p \<Longrightarrow> same_keys (run calls p)"
  by (induction calls arbitrary: p) (simp_all add: run_Nil run_Cons same_keys_step)

lemma ttl_step: "ttl (step c p) = ttl p"
  by (cases c) (simp_all add: Store_def Check_def cleanupExpired_def ttl_deleteEntries)

lemma ttl_run: "ttl (run calls p) = ttl p"
  by (induction calls arbitrary: p) (simp_all add: run_Nil run_Cons ttl_step)

lemma absent_step:
  assumes "fmlookup (cache p) trx = None" and "\<not> stores trx c"
  shows "fmlookup (cache (step c p)) trx = None"
  using assms
  by (cases c) (simp_all add: Store_def Check_def cleanupExpired_def cache_deleteEntries)

lemma absent_run:
  assumes "fmlookup (cache p) trx = None" and "\<forall>c\<in>set calls. \<not> stores trx c"
  shows "fmlookup (cache (run calls p)) trx = None"
  using assms
  by (induction calls arbitrary: p) (simp_all add: run_Nil run_Cons absent_step)

lemma present_step:
  assumes "fmlookup (cache p) trx = Some b" and "fmlookup (cacheExpire p) trx = Some t0"
    and "\<not> stores trx c" and "sweeps_by trx tc c" and "Since tc t0 \<le> ttl p"
  shows "fmlookup (cache (step c p)) trx = Some b \<and>
         fmlookup (cacheExpire (step c p)) trx = Some t0"
  using assms
  by (cases c)
    (simp_all add: Store_def Check_def cleanupExpired_def cache_deleteEntries
      cacheExpire_deleteEntries scanExpired_iff Since_def)

lemma present_run:
  assumes "fmlookup (cache p) trx = Some b" and "fmlookup (cacheExpire p) trx = Some t0"
    and "\<forall>c\<in>set calls. \<not> stores trx c \<and> sweeps_by trx tc c" and "Since tc t0 \<le> ttl p"
  shows "fmlookup (cache (run calls p)) trx = Some b"
  using assms
proof (induction calls arbitrary: p)
  case Nil
  then show ?case by (simp add: run_Nil)
next
  case (Cons c calls)
  have "fmlookup (cache (step c p)) trx = Some b \<and>
        fmlookup (cacheExpire (step c p)) trx = Some t0"
    using Cons.prems by (intro present_step [where tc = tc]) simp_all
  moreover have "\<forall>c'\<in>set calls. \<not> stores trx c' \<and> sweeps_by trx tc c'"
    using Cons.prems(3) by simp
  moreover have "Since tc t0 \<le> ttl (step c p)"
    using Cons.prems(4) by (simp add: ttl_step)
  ultimately show ?case
    using Cons.IH by (simp add: run_Cons)
qed

text \<open>
  Without a \<open>Store\<close> for it, an identifier is either gone from \<open>cache\<close> or still has
  the timestamp it had.
\<close>

lemma gone_or_same_step:
  assumes "fmlookup (cache p) trx = None \<or> fmlookup (cacheExpire p) trx = Some t0"
    and "\<not> stores trx c"
  shows "fmlookup (cache (step c p)) trx = None \<or> fmlookup (cacheExpire (step c p)) trx = Some t0"
  using assms
  by (cases c)
    (auto simp: Store_def Check_def cleanupExpired_def cache_deleteEntries
      cacheExpire_deleteEntries)

lemma gone_or_same_run:
  assumes "fmlookup (cache p) trx = None \<or> fmlookup (cacheExpire p) trx = Some t0"
    and "\<forall>c\<in>set calls. \<not> stores trx c"
  shows "fmlookup (cache (run calls p)) trx = None \<or>
         fmlookup (cacheExpire (run calls p)) trx = Some t0"
  using assms
proof (induction calls arbitrary: p)
  case Nil
  then show ?case by (simp add: run_Nil)
next
  case (Cons c calls)
  then show ?case
    using gone_or_same_step [of p trx t0 c] by (simp add: run_Cons)
qed

lemma expired_swept:
  assumes "fmlookup (cache p) trx = None \<or> fmlookup (cacheExpire p) trx = Some t0"
    and "clk trx - t0 > ttl p"
  shows "fmlookup (cache (cleanupExpired clk p)) trx = None"
  using assms
  by (auto simp: cleanupExpired_def cache_deleteEntries scanExpired_iff)

lemma select_loop_ticks:
  "select_loop (map TimerC clks @ wakes) p = select_loop wakes (run (map CallCleanup clks) p)"
  by (induction clks arbitrary: p) (simp_all add: run_Nil run_Cons)

lemma range_loop_never_returns: "snd (range_loop wakes p) = (Ticking, Looping)"
  by (induction wakes p rule: range_loop.induct) simp_all

lemma range_loop_sweeps: "fst (range_loop wakes p) = run (ticks wakes) p"
  by (induction wakes p rule: range_loop.induct) (simp_all add: run_Nil run_Cons)

lemma ticks_map_TimerC: "ticks (map TimerC clks) = map CallCleanup clks"
  by (induction clks) simp_all

subsection \<open>The claims\<close>

text \<open>
  C1. For every identifier and every byte slice, \<open>Store\<close> immediately followed by
  \<open>Check\<close> of the same identifier returns exactly the stored bytes, whatever the
  store held before and whatever the clock reads.
\<close>

theorem Store_then_Check:
  "fst (Check (Store now trx result p) trx) = result"
  by (simp add: Check_def Store_def)

text \<open>
  C2. The two maps always have the same keys: the constructor establishes it, and
  \<open>Store\<close>, the delete section of the sweep (for any set of identifiers it is handed,
  so also one collected from an older state), a whole sweep and \<open>Check\<close> preserve it;
  hence in every state reached from a new store by any sequence of calls an
  identifier is a key of \<open>cache\<close> exactly when it is a key of \<open>cacheExpire\<close>.
\<close>

theorem same_keys_invariant:
  "same_keys (fst (NewBytesTRXStoreWithContext ctx d)) \<and>
   (same_keys p \<longrightarrow> same_keys (Store now trx result p)) \<and>
   (same_keys p \<longrightarrow> same_keys (deleteEntries ids p)) \<and>
   (same_keys p \<longrightarrow> same_keys (cleanupExpired clk p)) \<and>
   (same_keys p \<longrightarrow> same_keys (snd (Check p trx))) \<and>
   (trx' |\<in>| fmdom (cache (run calls (fst (NewBytesTRXStoreWithContext ctx d)))) \<longleftrightarrow>
    trx' |\<in>| fmdom (cacheExpire (run calls (fst (NewBytesTRXStoreWithContext ctx d)))))"
proof -
  have "same_keys (run calls (fst (NewBytesTRXStoreWithContext ctx d)))"
    by (rule same_keys_run [OF same_keys_New])
  then have "fmdom (cache (run calls (fst (NewBytesTRXStoreWithContext ctx d)))) =
             fmdom (cacheExpire (run calls (fst (NewBytesTRXStoreWithContext ctx d))))"
    by (simp only: same_keys_def)
  moreover have "same_keys p \<longrightarrow> same_keys (cleanupExpired clk p)"
    by (simp add: cleanupExpired_def same_keys_deleteEntries)
  moreover have "snd (Check p trx) = p"
    by (simp add: Check_def)
  ultimately show ?thesis
    using same_keys_New same_keys_Store same_keys_deleteEntries by simp
qed

theorem same_keys_invariant_witness:
  "same_keys (fst (NewBytesTRXStoreWithContext Context 10)) \<and>
   same_keys (Store 5 1 (Slice [1, 2]) (fst (NewBytesTRXStoreWithContext Context 10))) \<and>
   same_keys (deleteEntries {|1|} (Store 5 1 (Slice [1, 2]) (fst (NewBytesTRXStoreWithContext Context 10)))) \<and>
   (2 |\<in>| fmdom (cache (run [CallStore 0 1 NilSlice, CallStore 1 2 (Slice [7]), CallCleanup (\<lambda>_. 11)]
                          (fst (NewBytesTRXStoreWithContext Context 10)))) \<longleftrightarrow>
    2 |\<in>| fmdom (cacheExpire (run [CallStore 0 1 NilSlice, CallStore 1 2 (Slice [7]), CallCleanup (\<lambda>_. 11)]
                          (fst (NewBytesTRXStoreWithContext Context 10)))))"
  using same_keys_invariant [where ctx = Context and d = 10
      and p = "fst (NewBytesTRXStoreWithContext Context 10)" and now = 5 and trx = 1
      and result = "Slice [1, 2]"]
    same_keys_invariant [where ctx = Context and d = 10
      and p = "Store 5 1 (Slice [1, 2]) (fst (NewBytesTRXStoreWithContext Context 10))"
      and ids = "{|1|}" and trx' = 2
      and calls = "[CallStore 0 1 NilSlice, CallStore 1 2 (Slice [7]), CallCleanup (\<lambda>_. 11)]"]
  by blast

text \<open>
  C3. One run of the sweep deletes from both maps exactly the identifiers that have a
  timestamp whose age, at the reading the scan takes for them, exceeds the TTL; every
  other entry keeps its value and its timestamp, and the TTL is unchanged. So after
  the sweep \<open>Check\<close> gives nil for each expired identifier, however many there are;
  and if every entry of a store with equal key sets is expired, both maps are empty
  after the sweep. (A sweep at one instant \<open>now\<close> is the case \<open>clk = (\<lambda>_. now)\<close>.)
\<close>

theorem cleanupExpired_exact:
  "fmlookup (cache (cleanupExpired clk p)) trx =
     (case fmlookup (cacheExpire p) trx of
        None \<Rightarrow> fmlookup (cache p) trx
      | Some createdAt \<Rightarrow> if clk trx - createdAt > ttl p then None else fmlookup (cache p) trx) \<and>
   fmlookup (cacheExpire (cleanupExpired clk p)) trx =
     (case fmlookup (cacheExpire p) trx of
        None \<Rightarrow> None
      | Some createdAt \<Rightarrow> if clk trx - createdAt > ttl p then None else Some createdAt) \<and>
   fst (Check (cleanupExpired clk p) trx) =
     (case fmlookup (cacheExpire p) trx of
        None \<Rightarrow> fst (Check p trx)
      | Some createdAt \<Rightarrow> if clk trx - createdAt > ttl p then NilSlice else fst (Check p trx)) \<and>
   ttl (cleanupExpired clk p) = ttl p \<and>
   (same_keys p \<and>
    (\<forall>id createdAt. fmlookup (cacheExpire p) id = Some createdAt \<longrightarrow> clk id - createdAt > ttl p) \<longrightarrow>
      cache (cleanupExpired clk p) = fmempty \<and> cacheExpire (cleanupExpired clk p) = fmempty)"
proof -
  have each: "fmlookup (cache (cleanupExpired clk p)) trx =
     (case fmlookup (cacheExpire p) trx of
        None \<Rightarrow> fmlookup (cache p) trx
      | Some createdAt \<Rightarrow> if clk trx - createdAt > ttl p then None else fmlookup (cache p) trx) \<and>
   fmlookup (cacheExpire (cleanupExpired clk p)) trx =
     (case fmlookup (cacheExpire p) trx of
        None \<Rightarrow> None
      | Some createdAt \<Rightarrow> if clk trx - createdAt > ttl p then None else Some createdAt) \<and>
   fst (Check (cleanupExpired clk p) trx) =
     (case fmlookup (cacheExpire p) trx of
        None \<Rightarrow> fst (Check p trx)
      | Some createdAt \<Rightarrow> if clk trx - createdAt > ttl p then NilSlice else fst (Check p trx)) \<and>
   ttl (cleanupExpired clk p) = ttl p"
    by (simp add: cleanupExpired_def cache_deleteEntries cacheExpire_deleteEntries
        ttl_deleteEntries scanExpired_iff Check_def split: option.splits)
  have all: "cache (cleanupExpired clk p) = fmempty \<and> cacheExpire (cleanupExpired clk p) = fmempty"
    if keys: "same_keys p"
      and old: "\<forall>id createdAt. fmlookup (cacheExpire p) id = Some createdAt \<longrightarrow> clk id - createdAt > ttl p"
  proof
    show "cacheExpire (cleanupExpired clk p) = fmempty"
    proof (rule fmap_ext)
      fix id
      show "fmlookup (cacheExpire (cleanupExpired clk p)) id = fmlookup fmempty id"
        using old
        by (cases "fmlookup (cacheExpire p) id")
          (simp_all add: cleanupExpired_def cacheExpire_deleteEntries scanExpired_iff)
    qed
    show "cache (cleanupExpired clk p) = fmempty"
    proof (rule fmap_ext)
      fix id
      show "fmlookup (cache (cleanupExpired clk p)) id = fmlookup fmempty id"
      proof (cases "fmlookup (cacheExpire p) id")
        case None
        then have "id |\<notin>| fmdom (cache p)"
          using keys by (simp add: same_keys_def fmlookup_dom_iff)
        then have "fmlookup (cache p) id = None"
          by (simp add: fmlookup_dom_iff)
        then show ?thesis
          by (simp add: cleanupExpired_def cache_deleteEntries)
      next
        case (Some createdAt)
        then show ?thesis
          using old by (simp add: cleanupExpired_def cache_deleteEntries scanExpired_iff)
      qed
    qed
  qed
  from each all show ?thesis
    by blast
qed

theorem cleanupExpired_exact_witness:
  "same_keys (Store 1 2 (Slice [7]) (Store 0 1 NilSlice (fst (NewBytesTRXStore 10)))) \<and>
   cache (cleanupExpired (\<lambda>_. 100) (Store 1 2 (Slice [7]) (Store 0 1 NilSlice (fst (NewBytesTRXStore 10)))))
     = fmempty \<and>
   cacheExpire (cleanupExpired (\<lambda>_. 100) (Store 1 2 (Slice [7]) (Store 0 1 NilSlice (fst (NewBytesTRXStore 10)))))
     = fmempty \<and>
   fst (Check (cleanupExpired (\<lambda>_. 100) (Store 1 2 (Slice [7]) (Store 0 1 NilSlice (fst (NewBytesTRXStore 10))))) 2)
     = NilSlice"
  using cleanupExpired_exact [where clk = "\<lambda>_. 100" and trx = 2
      and p = "Store 1 2 (Slice [7]) (Store 0 1 NilSlice (fst (NewBytesTRXStore 10)))"]
  by (simp add: same_keys_def Store_def NewBytesTRXStore_def NewBytesTRXStoreWithContext_def)


text \<open>
  C8. \<open>Check\<close> changes nothing: the store it leaves is the store it was called on,
  with the same result map, timestamp map and TTL.
\<close>

theorem Check_no_effect:
  "snd (Check p trx) = p \<and>
   cache (snd (Check p trx)) = cache p \<and>
   cacheExpire (snd (Check p trx)) = cacheExpire p \<and>
   ttl (snd (Check p trx)) = ttl p"
  by (simp add: Check_def)

text \<open>
  C5. \<open>Check\<close> returns nil for an identifier that no call of the sequence run on a
  new store has passed to \<open>Store\<close>, and for an identifier whose entry a sweep found
  expired and that has not been passed to \<open>Store\<close> since. \<open>Check\<close> has no failing
  case: reading a Go map at a missing key gives the zero value, so the model of
  \<open>Check\<close> is a total function with no error result.
\<close>

theorem Check_absent:
  "((\<forall>c\<in>set calls. \<not> stores trx c) \<longrightarrow>
      fst (Check (run calls (fst (NewBytesTRXStoreWithContext ctx d))) trx) = NilSlice) \<and>
   ((\<forall>c\<in>set calls. \<not> stores trx c) \<and>
    fmlookup (cacheExpire p) trx = Some createdAt \<and> clk trx - createdAt > ttl p \<longrightarrow>
      fst (Check (run calls (cleanupExpired clk p)) trx) = NilSlice)"
proof (intro conjI impI)
  assume "\<forall>c\<in>set calls. \<not> stores trx c"
  moreover have "fmlookup (cache (fst (NewBytesTRXStoreWithContext ctx d))) trx = None"
    by (simp add: NewBytesTRXStoreWithContext_def)
  ultimately have "fmlookup (cache (run calls (fst (NewBytesTRXStoreWithContext ctx d)))) trx = None"
    by (intro absent_run)
  then show "fst (Check (run calls (fst (NewBytesTRXStoreWithContext ctx d))) trx) = NilSlice"
    by (simp add: Check_def)
next
  assume a: "(\<forall>c\<in>set calls. \<not> stores trx c) \<and>
    fmlookup (cacheExpire p) trx = Some createdAt \<and> clk trx - createdAt > ttl p"
  then have "fmlookup (cache (cleanupExpired clk p)) trx = None"
    by (intro expired_swept [where ?t0.0 = createdAt]) simp_all
  with a have "fmlookup (cache (run calls (cleanupExpired clk p))) trx = None"
    by (intro absent_run) simp_all
  then show "fst (Check (run calls (cleanupExpired clk p)) trx) = NilSlice"
    by (simp add: Check_def)
qed

theorem Check_absent_witness:
  "list_all (\<lambda>c. \<not> stores 2 c)
     [CallStore 0 1 (Slice [116, 101, 115, 116]), CallCleanup (\<lambda>_. 100000000), CallCheck 2] \<and>
   list_all (\<lambda>c. \<not> stores 1 c) [CallStore 5 2 NilSlice, CallCheck 1] \<and>
   fst (Check (run [CallStore 0 1 (Slice [116, 101, 115, 116]), CallCleanup (\<lambda>_. 100000000), CallCheck 2]
                (fst (NewBytesTRXStoreWithContext NilContext 10000000))) 2) = NilSlice \<and>
   fmlookup (cacheExpire (Store 0 1 (Slice [116, 101, 115, 116])
                (fst (NewBytesTRXStoreWithContext NilContext 10000000)))) 1 = Some 0 \<and>
   (100000000 :: int) - 0 > ttl (Store 0 1 (Slice [116, 101, 115, 116])
                (fst (NewBytesTRXStoreWithContext NilContext 10000000))) \<and>
   fst (Check (run [CallStore 5 2 NilSlice, CallCheck 1]
                (cleanupExpired (\<lambda>_. 100000000)
                  (Store 0 1 (Slice [116, 101, 115, 116])
                    (fst (NewBytesTRXStoreWithContext NilContext 10000000))))) 1) = NilSlice"
  using Check_absent [where calls = "[CallStore 0 1 (Slice [116, 101, 115, 116]), CallCleanup (\<lambda>_. 100000000), CallCheck 2]"
      and trx = 2 and ctx = NilContext and d = 10000000]
    Check_absent [where calls = "[CallStore 5 2 NilSlice, CallCheck 1]" and trx = 1
      and p = "Store 0 1 (Slice [116, 101, 115, 116]) (fst (NewBytesTRXStoreWithContext NilContext 10000000))"
      and createdAt = 0 and clk = "\<lambda>_. 100000000"]
  by (simp add: Store_def NewBytesTRXStoreWithContext_def)

text \<open>
  Expiry when every sweep runs its two sections without a \<open>Store\<close> in between.
  After \<open>Store t0 trx bytes\<close> on a store with TTL \<open>d\<close>, and with no further
  \<open>Store\<close> for \<open>trx\<close>: a \<open>Check\<close> made at a time \<open>tc\<close> with \<open>tc - t0 \<le> d\<close> (so in
  particular before \<open>d\<close> has elapsed) returns \<open>bytes\<close>, whatever calls came before it;
  and once a sweep has run that read the clock more than \<open>d\<close> after \<open>t0\<close>, \<open>Check\<close>
  returns nil. The calls are complete runs of \<open>Store\<close>, \<open>Check\<close> and \<open>cleanupExpired\<close>,
  in any number and order.
\<close>

lemma expiry_complete_runs:
  "((\<forall>c\<in>set calls. \<not> stores trx c \<and> sweeps_by trx tc c) \<and> tc - t0 \<le> ttl p \<longrightarrow>
      fst (Check (run calls (Store t0 trx bytes p)) trx) = bytes) \<and>
   ((\<forall>c\<in>set (pre @ post). \<not> stores trx c) \<and> clk trx - t0 > ttl p \<longrightarrow>
      fst (Check (run (pre @ CallCleanup clk # post) (Store t0 trx bytes p)) trx) = NilSlice)"
proof (intro conjI impI)
  let ?p1 = "Store t0 trx bytes p"
  have c1: "fmlookup (cache ?p1) trx = Some bytes"
    and e1: "fmlookup (cacheExpire ?p1) trx = Some t0"
    and t1: "ttl ?p1 = ttl p"
    by (simp_all add: Store_def)
  {
    assume "(\<forall>c\<in>set calls. \<not> stores trx c \<and> sweeps_by trx tc c) \<and> tc - t0 \<le> ttl p"
    then have "fmlookup (cache (run calls ?p1)) trx = Some bytes"
      using c1 e1 t1 by (intro present_run [where ?t0.0 = t0 and tc = tc]) (simp_all add: Since_def)
    then show "fst (Check (run calls ?p1) trx) = bytes"
      by (simp add: Check_def)
  }
  {
    assume a: "(\<forall>c\<in>set (pre @ post). \<not> stores trx c) \<and> clk trx - t0 > ttl p"
    let ?q = "run pre ?p1"
    have "fmlookup (cache ?q) trx = None \<or> fmlookup (cacheExpire ?q) trx = Some t0"
      using e1 a by (intro gone_or_same_run) simp_all
    moreover have "clk trx - t0 > ttl ?q"
      using a t1 by (simp add: ttl_run)
    ultimately have "fmlookup (cache (cleanupExpired clk ?q)) trx = None"
      by (rule expired_swept)
    then have "fmlookup (cache (run post (cleanupExpired clk ?q))) trx = None"
      using a by (intro absent_run) simp_all
    then show "fst (Check (run (pre @ CallCleanup clk # post) ?p1) trx) = NilSlice"
      by (simp add: Check_def run_append run_Cons)
  }
qed

text \<open>
  An instance that follows the repository's test: TTL 10 ms, \<open>Store\<close> of the bytes of
  "test" at time 0, a \<open>Check\<close> at 7 ms (after a sweep at 5 ms and a \<open>Store\<close> for another
  identifier), and a \<open>Check\<close> after sweeps at one, two and three periods of 100 ms.
\<close>

lemma expiry_complete_runs_test:
  "list_all (\<lambda>c. \<not> stores 1 c \<and> sweeps_by 1 7000000 c)
     [CallCleanup (\<lambda>_. 5000000), CallStore 6000000 2 (Slice [0]), CallCheck 1] \<and>
   (7000000 :: int) - 0 \<le> ttl (fst (NewBytesTRXStore 10000000)) \<and>
   fst (Check (run [CallCleanup (\<lambda>_. 5000000), CallStore 6000000 2 (Slice [0]), CallCheck 1]
     (Store 0 1 (Slice [116, 101, 115, 116]) (fst (NewBytesTRXStore 10000000)))) 1)
     = Slice [116, 101, 115, 116] \<and>
   list_all (\<lambda>c. \<not> stores 1 c)
     ([CallCheck 1] @
      [CallCleanup (\<lambda>_. 2 * sleepBetweenExpireCheck), CallCleanup (\<lambda>_. 3 * sleepBetweenExpireCheck),
       CallCheck 1]) \<and>
   sleepBetweenExpireCheck - 0 > ttl (fst (NewBytesTRXStore 10000000)) \<and>
   fst (Check (run ([CallCheck 1] @ CallCleanup (\<lambda>_. sleepBetweenExpireCheck) #
                    [CallCleanup (\<lambda>_. 2 * sleepBetweenExpireCheck),
                     CallCleanup (\<lambda>_. 3 * sleepBetweenExpireCheck), CallCheck 1])
     (Store 0 1 (Slice [116, 101, 115, 116]) (fst (NewBytesTRXStore 10000000)))) 1) = NilSlice"
  using expiry_complete_runs [where calls = "[CallCleanup (\<lambda>_. 5000000), CallStore 6000000 2 (Slice [0]), CallCheck 1]"
      and trx = 1 and ?t0.0 = 0 and tc = 7000000
      and p = "fst (NewBytesTRXStore 10000000)" and bytes = "Slice [116, 101, 115, 116]"
      and pre = "[CallCheck 1]" and clk = "\<lambda>_. sleepBetweenExpireCheck"
      and post = "[CallCleanup (\<lambda>_. 2 * sleepBetweenExpireCheck),
                   CallCleanup (\<lambda>_. 3 * sleepBetweenExpireCheck), CallCheck 1]"]
  by (simp add: NewBytesTRXStore_def NewBytesTRXStoreWithContext_def sleepBetweenExpireCheck_def)

text \<open>
  C6. With TTL \<open>d\<close>, a \<open>Check\<close> made after \<open>Store\<close> and before \<open>d\<close> has elapsed should
  return the stored bytes. The code does not always do so, because \<open>cleanupExpired\<close>
  releases the lock between its scan and its delete section. Here \<open>d\<close> is 10 ms.
  Identifier 1 is stored at time 0, and the scan of the sweep at 100 ms collects it.
  One nanosecond later, before the sweep takes the write lock, \<open>Store\<close> writes the
  bytes of "test" for identifier 1; at that moment \<open>Check\<close> returns them. Then the
  delete section runs, and a \<open>Check\<close> 2 ns after the \<open>Store\<close>, with 2 ns \<open>\<le>\<close> 10 ms,
  returns nil. Had the sweep run both sections before the \<open>Store\<close>, the same \<open>Check\<close>
  would have returned the bytes.
\<close>

theorem Check_nil_before_ttl_elapsed:
  "fst (Check
     (Store (sleepBetweenExpireCheck + 1) 1 (Slice [116, 101, 115, 116])
        (Store 0 1 (Slice [1]) (fst (NewBytesTRXStore 10000000))))
     1) = Slice [116, 101, 115, 116] \<and>
   fst (Check
     (deleteEntries
        (scanExpired (\<lambda>_. sleepBetweenExpireCheck)
           (Store 0 1 (Slice [1]) (fst (NewBytesTRXStore 10000000))))
        (Store (sleepBetweenExpireCheck + 1) 1 (Slice [116, 101, 115, 116])
           (Store 0 1 (Slice [1]) (fst (NewBytesTRXStore 10000000)))))
     1) = NilSlice \<and>
   Since (sleepBetweenExpireCheck + 3) (sleepBetweenExpireCheck + 1)
     \<le> ttl (Store (sleepBetweenExpireCheck + 1) 1 (Slice [116, 101, 115, 116])
             (Store 0 1 (Slice [1]) (fst (NewBytesTRXStore 10000000)))) \<and>
   fst (Check
     (Store (sleepBetweenExpireCheck + 1) 1 (Slice [116, 101, 115, 116])
        (cleanupExpired (\<lambda>_. sleepBetweenExpireCheck)
           (Store 0 1 (Slice [1]) (fst (NewBytesTRXStore 10000000)))))
     1) = Slice [116, 101, 115, 116]"
  by (simp add: Check_def Store_def Since_def NewBytesTRXStore_def NewBytesTRXStoreWithContext_def
      sleepBetweenExpireCheck_def cleanupExpired_def scanExpired_iff cache_deleteEntries)

text \<open>
  C7. Started with a context, the sweeper sweeps at each tick and stays in its loop
  until it receives the cancellation; at that wake it stops the ticker and returns,
  and neither that wake nor anything later touches the store: the store is the one
  the earlier sweeps left, \<open>Check\<close> answers from it as before and \<open>Store\<close> followed by
  \<open>Check\<close> still returns what was stored. Started by \<open>NewBytesTRXStore\<close>, that is
  with the nil context, the sweeper runs a sweep at every tick, whatever else happens
  in between, and after every sequence of wakes it is still in its loop with the
  ticker running: nothing stops it.
\<close>

theorem watchExpire_lifecycle:
  "watchExpire (snd (NewBytesTRXStoreWithContext Context d)) (map TimerC clks @ CtxDone # rest) p =
     (run (map CallCleanup clks) p, Stopped, Returned) \<and>
   watchExpire (snd (NewBytesTRXStoreWithContext Context d)) (map TimerC clks) p =
     (run (map CallCleanup clks) p, Ticking, Looping) \<and>
   watchExpire (snd (NewBytesTRXStoreWithContext Context d)) (CtxDone # rest) p = (p, Stopped, Returned) \<and>
   fst (Check (fst (watchExpire (snd (NewBytesTRXStoreWithContext Context d)) (CtxDone # rest) p)) trx) =
     fst (Check p trx) \<and>
   fst (Check (Store now trx result
          (fst (watchExpire (snd (NewBytesTRXStoreWithContext Context d)) (CtxDone # rest) p))) trx) = result \<and>
   snd (watchExpire (snd (NewBytesTRXStore d)) wakes p) = (Ticking, Looping) \<and>
   fst (watchExpire (snd (NewBytesTRXStore d)) wakes p) = run (ticks wakes) p \<and>
   watchExpire (snd (NewBytesTRXStore d)) (map TimerC clks) p =
     (run (map CallCleanup clks) p, Ticking, Looping)"
proof -
  have ctx: "snd (NewBytesTRXStoreWithContext Context d) = Context"
    and nil: "snd (NewBytesTRXStore d) = NilContext"
    by (simp_all add: NewBytesTRXStore_def NewBytesTRXStoreWithContext_def)
  have "watchExpire Context (map TimerC clks @ CtxDone # rest) p =
          (run (map CallCleanup clks) p, Stopped, Returned)"
    by (simp add: watchExpire_def select_loop_ticks)
  moreover have "watchExpire Context (map TimerC clks) p =
          (run (map CallCleanup clks) p, Ticking, Looping)"
    using select_loop_ticks [of clks "[]" p] by (simp add: watchExpire_def)
  moreover have "watchExpire Context (CtxDone # rest) p = (p, Stopped, Returned)"
    by (simp add: watchExpire_def)
  moreover have running: "snd (watchExpire NilContext ws p) = (Ticking, Looping)" for ws
    by (simp add: watchExpire_def range_loop_never_returns)
  moreover have sweeps: "fst (watchExpire NilContext ws p) = run (ticks ws) p" for ws
    by (simp add: watchExpire_def range_loop_sweeps)
  moreover have "watchExpire NilContext (map TimerC clks) p =
          (run (map CallCleanup clks) p, Ticking, Looping)"
    using running [of "map TimerC clks"] sweeps [of "map TimerC clks"]
    by (simp add: prod_eq_iff ticks_map_TimerC)
  ultimately show ?thesis
    unfolding ctx nil by (simp add: Check_def Store_def)
qed

text \<open>
  An instance with the nil context: an entry stored at time 0 with TTL 10 ms is gone
  after the tick at 100 ms, also when a cancellation was signalled before it, and the
  sweeper is still running.
\<close>

lemma watchExpire_nil_context_sweeps:
  "fst (Check (fst (watchExpire (snd (NewBytesTRXStore 10000000))
          [CtxDone, TimerC (\<lambda>_. sleepBetweenExpireCheck)]
          (Store 0 1 (Slice [116, 101, 115, 116]) (fst (NewBytesTRXStore 10000000))))) 1) = NilSlice \<and>
   snd (watchExpire (snd (NewBytesTRXStore 10000000))
          [CtxDone, TimerC (\<lambda>_. sleepBetweenExpireCheck)]
          (Store 0 1 (Slice [116, 101, 115, 116]) (fst (NewBytesTRXStore 10000000)))) = (Ticking, Looping)"
  by (simp add: watchExpire_def Check_def Store_def NewBytesTRXStore_def NewBytesTRXStoreWithContext_def
      sleepBetweenExpireCheck_def cleanupExpired_def scanExpired_iff cache_deleteEntries)

text \<open>
  C9 as stated: the claim puts a stored empty slice on a par with a stored nil slice.
  A stored slice of length 0 that is not nil comes back as it is, and differs from
  what \<open>Check\<close> returns for an identifier that was never stored.
\<close>

theorem Store_empty_counterexample:
  "fst (Check (Store 0 1 (Slice []) (fst (NewBytesTRXStore 10))) 1) \<noteq>
   fst (Check (fst (NewBytesTRXStore 10)) 1)"
  by (simp add: Check_def Store_def NewBytesTRXStore_def NewBytesTRXStoreWithContext_def)

text \<open>
  C9, amended. After \<open>Store\<close> of the nil slice, \<open>Check\<close> returns nil, the value it
  returns for an identifier of a new store, although the identifier is a key of both
  maps. After \<open>Store\<close> of a non-nil slice of length 0, \<open>Check\<close> returns that slice,
  which is not nil.
\<close>

theorem Store_nil_like_absent:
  "fst (Check (Store now trx NilSlice p) trx) = NilSlice \<and>
   fst (Check (fst (NewBytesTRXStoreWithContext ctx d)) trx) = NilSlice \<and>
   trx |\<in>| fmdom (cache (Store now trx NilSlice p)) \<and>
   trx |\<in>| fmdom (cacheExpire (Store now trx NilSlice p)) \<and>
   fst (Check (Store now trx (Slice []) p) trx) = Slice [] \<and>
   fst (Check (Store now trx (Slice []) p) trx) \<noteq> NilSlice"
  by (simp add: Check_def Store_def NewBytesTRXStoreWithContext_def)

text \<open>
  C10. The two sections of \<open>cleanupExpired\<close> release the lock in between, so \<open>Store\<close>
  calls can run between them. Here the TTL is 10 ms, as in the repository's test. An
  entry for identifier 1 is stored at time 0 and the scan of the first sweep, at
  100 ms, collects it. Whatever results callers then store for identifier 1 before the
  sweep takes the write lock, the delete section removes identifier 1 and \<open>Check\<close>
  returns nil. With two such callers, 1 ns and 2 ns after the scan, \<open>Check\<close> returns
  nil, neither of their payloads, although a scan 3 ns after the first would not find
  the entry expired; when the whole sweep runs before the two \<open>Store\<close> calls, the same
  \<open>Check\<close> returns the payload stored last.
\<close>

theorem Store_between_scan_and_delete:
  "fst (Check
     (deleteEntries
        (scanExpired (\<lambda>_. 100000000) (Store 0 1 (Slice [1]) (fst (NewBytesTRXStore 10000000))))
        (run (map (\<lambda>(t, b). CallStore t 1 b) writes)
           (Store 0 1 (Slice [1]) (fst (NewBytesTRXStore 10000000)))))
     1) = NilSlice \<and>
   fst (Check
     (deleteEntries
        (scanExpired (\<lambda>_. 100000000) (Store 0 1 (Slice [1]) (fst (NewBytesTRXStore 10000000))))
        (Store 100000002 1 (Slice [3]) (Store 100000001 1 (Slice [2])
           (Store 0 1 (Slice [1]) (fst (NewBytesTRXStore 10000000))))))
     1) = NilSlice \<and>
   1 |\<notin>| scanExpired (\<lambda>_. 100000003)
      (Store 100000002 1 (Slice [3]) (Store 100000001 1 (Slice [2])
         (Store 0 1 (Slice [1]) (fst (NewBytesTRXStore 10000000))))) \<and>
   fst (Check
     (Store 100000002 1 (Slice [3]) (Store 100000001 1 (Slice [2])
        (cleanupExpired (\<lambda>_. 100000000)
           (Store 0 1 (Slice [1]) (fst (NewBytesTRXStore 10000000))))))
     1) = Slice [3]"
proof -
  let ?p1 = "Store 0 1 (Slice [1]) (fst (NewBytesTRXStore 10000000))"
  have collected: "1 |\<in>| scanExpired (\<lambda>_. 100000000) ?p1"
    by (simp add: scanExpired_iff Store_def NewBytesTRXStore_def NewBytesTRXStoreWithContext_def)
  have "fst (Check (deleteEntries (scanExpired (\<lambda>_. 100000000) ?p1) q) 1) = NilSlice" for q
    using collected by (simp add: Check_def cache_deleteEntries)
  moreover have "1 |\<notin>| scanExpired (\<lambda>_. 100000003)
      (Store 100000002 1 (Slice [3]) (Store 100000001 1 (Slice [2]) ?p1))"
    by (simp add: scanExpired_iff Store_def NewBytesTRXStore_def NewBytesTRXStoreWithContext_def)
  moreover have "fst (Check (Store 100000002 1 (Slice [3]) (Store 100000001 1 (Slice [2])
        (cleanupExpired (\<lambda>_. 100000000) ?p1))) 1) = Slice [3]"
    by (simp add: Check_def Store_def)
  ultimately show ?thesis
    by simp
qed

end
